theory Spec2Isabelle
  imports Main "HOL-Library.AList"
begin

section \<open>Strings of the source language\<close>

text \<open>
  A Python \<open>str\<close> is modelled as a \<open>string\<close>, one \<open>char\<close> per code point; the model
  therefore covers texts whose code points lie below 256. Within that range the
  characters for which \<open>str.isspace\<close> holds (the ones \<open>str.strip\<close>, \<open>str.lstrip\<close> and the
  regular-expression class \<open>\s\<close> remove or match) are the twelve listed in \<open>is_space\<close>.
\<close>

definition is_space :: "char \<Rightarrow> bool" where
  "is_space c \<longleftrightarrow> c \<in> set [CHR 0x09, CHR 0x0A, CHR 0x0B, CHR 0x0C, CHR 0x0D,
                          CHR 0x1C, CHR 0x1D, CHR 0x1E, CHR 0x1F, CHR 0x20,
                          CHR 0x85, CHR 0xA0]"

text \<open>\<open>line.lstrip()\<close> and \<open>line.strip()\<close>.\<close>

definition lstrip :: "string \<Rightarrow> string" where
  "lstrip s = dropWhile is_space s"

definition strip :: "string \<Rightarrow> string" where
  "strip s = rev (dropWhile is_space (rev (dropWhile is_space s)))"

text \<open>
  \<open>text.splitlines()\<close>: the text is cut at every line boundary, \<open>\r\n\<close> counting as one
  boundary, the boundaries are not kept, and a text that ends with a boundary has no
  empty last line. The first argument is the line read so far.
\<close>

definition is_linebreak :: "char \<Rightarrow> bool" where
  "is_linebreak c \<longleftrightarrow> c \<in> set [CHR 0x0A, CHR 0x0B, CHR 0x0C, CHR 0x0D,
                              CHR 0x1C, CHR 0x1D, CHR 0x1E, CHR 0x85]"

fun splitlines_from :: "string \<Rightarrow> string \<Rightarrow> string list" where
  "splitlines_from cur [] = (if cur = [] then [] else [cur])"
| "splitlines_from cur (c # cs) =
     (if is_linebreak c
      then cur # splitlines_from []
             (if c = CHR 0x0D \<and> cs \<noteq> [] \<and> hd cs = CHR 0x0A then tl cs else cs)
      else splitlines_from (cur @ [c]) cs)"

definition splitlines :: "string \<Rightarrow> string list" where
  "splitlines text = splitlines_from [] text"

section \<open>The line pattern\<close>

text \<open>
  \<open>re.match(r"^\s*(.+?):\s*(.*)$", line)\<close>, as the backtracking matcher runs it on a
  line without a line feed (the lines come from \<open>splitlines\<close>, so \<open>.\<close> matches every
  character and \<open>$\<close> only the end of the line).

  \<^item> \<open>group2\<close> is the tail \<open>\s*(.*)$\<close> after the colon: the greedy \<open>\s*\<close> takes all the
    whitespace there is, \<open>(.*)\<close> the rest, and this never fails.
  \<^item> \<open>lazy_group\<close> is \<open>(.+?):\<close> once group 1 holds \<open>acc\<close>: the non-greedy quantifier
    first tries to end the group here, which needs a colon as the next character, and
    otherwise takes one more character.
  \<^item> \<open>match_here\<close> starts group 1 at the current position; \<open>.+?\<close> takes at least one
    character.
  \<^item> \<open>re_match\<close> is the leading greedy \<open>\s*\<close>: it first takes a whitespace character and
    matches the rest, and gives the character back when that fails.

  The result is the pair of group 1 and group 2, \<open>None\<close> when there is no match.
\<close>

definition group2 :: "string \<Rightarrow> string" where
  "group2 s = dropWhile is_space s"

fun lazy_group :: "string \<Rightarrow> string \<Rightarrow> (string \<times> string) option" where
  "lazy_group acc [] = None"
| "lazy_group acc (c # cs) =
     (if c = CHR '':'' then Some (acc, group2 cs) else lazy_group (acc @ [c]) cs)"

fun match_here :: "string \<Rightarrow> (string \<times> string) option" where
  "match_here [] = None"
| "match_here (c # cs) = lazy_group [c] cs"

fun re_match :: "string \<Rightarrow> (string \<times> string) option" where
  "re_match [] = match_here []"
| "re_match (c # cs) =
     (if is_space c
      then (case re_match cs of Some g \<Rightarrow> Some g | None \<Rightarrow> match_here (c # cs))
      else match_here (c # cs))"

section \<open>The metadata tree and the store it is built in\<close>

text \<open>
  The value \<open>parse_identify_output\<close> returns: a string, a list, or a dictionary. A
  dictionary keeps its keys in insertion order, so it is an association list.
\<close>

datatype pyval = Str string | Lst "pyval list" | Dict "(string \<times> pyval) list"

text \<open>
  While the parser runs, dictionaries are shared: a nested dictionary is at the same time
  the value of a key of its parent and an entry of the stack, and it is filled through the
  stack. So dictionaries live in a store, addressed by the order of their creation, and a
  value inside the store names a dictionary by its address. Address 0 is \<open>result\<close>.
  Lists are only ever reached through the key that holds them, so they are kept in place.
\<close>

datatype cell = CStr string | CList "cell list" | CRef nat

type_synonym pydict = "(string \<times> cell) list"

type_synonym store = "pydict list"

text \<open>The stack of pairs (indent, dictionary); its head is \<open>stack[-1]\<close>.\<close>

record pstate =
  heap :: store
  stack :: "(nat \<times> nat) list"

text \<open>
  The exceptions of the model. \<open>KeyError\<close> and \<open>AttributeError\<close> are those of the
  dictionary and list operations of the parser; \<open>DanglingRef\<close> stands for an address
  outside the store, which the source language cannot have. The others belong to the two
  utilities: \<open>OtherError\<close> carries the class name of any exception that has no constructor
  of its own (\<open>FileNotFoundError\<close> when the tool is not installed, \<open>PermissionError\<close>,
  \<open>RecursionError\<close> and so on).
\<close>

datatype exn = KeyError | AttributeError | DanglingRef
  | NotADirectoryError | FileExistsError | IsADirectoryError
  | CalledProcessError | OtherError string

text \<open>
  Dictionary and list operations of the source language, with the exceptions they raise:
  \<open>key in d\<close>, \<open>d[key]\<close>, \<open>d[key] = v\<close>, \<open>isinstance(v, list)\<close>, \<open>v.append(x)\<close>.
\<close>

definition contains :: "pydict \<Rightarrow> string \<Rightarrow> bool" where
  "contains d key \<longleftrightarrow> key \<in> set (map fst d)"

definition getitem :: "pydict \<Rightarrow> string \<Rightarrow> exn + cell" where
  "getitem d key = (case map_of d key of None \<Rightarrow> Inl KeyError | Some v \<Rightarrow> Inr v)"

definition setitem :: "pydict \<Rightarrow> string \<Rightarrow> cell \<Rightarrow> pydict" where
  "setitem d key v = AList.update key v d"

fun is_list :: "cell \<Rightarrow> bool" where
  "is_list (CList xs) = True"
| "is_list (CStr s) = False"
| "is_list (CRef a) = False"

fun py_append :: "cell \<Rightarrow> cell \<Rightarrow> exn + cell" where
  "py_append (CList xs) x = Inr (CList (xs @ [x]))"
| "py_append (CStr s) x = Inl AttributeError"
| "py_append (CRef a) x = Inl AttributeError"

text \<open>Reading and replacing the dictionary at an address of the store.\<close>

definition deref :: "store \<Rightarrow> nat \<Rightarrow> exn + pydict" where
  "deref h a = (if a < length h then Inr (h ! a) else Inl DanglingRef)"

definition assign :: "store \<Rightarrow> nat \<Rightarrow> pydict \<Rightarrow> store" where
  "assign h a d = h[a := d]"

section \<open>parse_identify_output\<close>

text \<open>\<open>while stack and indent <= stack[-1][0]: stack.pop()\<close>\<close>

fun pop_stack :: "nat \<Rightarrow> (nat \<times> nat) list \<Rightarrow> (nat \<times> nat) list" where
  "pop_stack indent [] = []"
| "pop_stack indent (e # st) =
     (if indent \<le> fst e then pop_stack indent st else e # st)"

text \<open>\<open>parent = stack[-1][1] if stack else result\<close>\<close>

fun parent_of :: "(nat \<times> nat) list \<Rightarrow> nat" where
  "parent_of [] = 0"
| "parent_of (e # st) = snd e"

text \<open>
  The \<open>else\<close> branch of the loop body (lines 41 to 47 of the source), on the parent
  dictionary: a key that is present has its value wrapped into a list unless it is one,
  and the new value appended; a key that is absent is set to the value.
\<close>

definition add_value :: "pydict \<Rightarrow> string \<Rightarrow> string \<Rightarrow> exn + pydict" where
  "add_value parent key v =
     (if contains parent key then
        (case getitem parent key of
           Inl e \<Rightarrow> Inl e
         | Inr cur \<Rightarrow>
             let parent1 = (if \<not> is_list cur then setitem parent key (CList [cur]) else parent)
             in (case getitem parent1 key of
                   Inl e \<Rightarrow> Inl e
                 | Inr l \<Rightarrow>
                     (case py_append l (CStr v) of
                        Inl e \<Rightarrow> Inl e
                      | Inr l' \<Rightarrow> Inr (setitem parent1 key l'))))
      else Inr (setitem parent key (CStr v)))"

text \<open>
  The part of the loop body after the match (lines 30 to 47): pop, find the parent, then
  either open a nested dictionary and push it, or add the value.
\<close>

definition insert_entry :: "nat \<Rightarrow> string \<Rightarrow> string \<Rightarrow> pstate \<Rightarrow> exn + pstate" where
  "insert_entry indent key v s =
     (let st = pop_stack indent (stack s);
          p = parent_of st
      in case deref (heap s) p of
           Inl e \<Rightarrow> Inl e
         | Inr parent \<Rightarrow>
             if v = [] then
               let new_dict = length (heap s)
               in Inr \<lparr>heap = assign (heap s) p (setitem parent key (CRef new_dict)) @ [[]],
                       stack = (indent, new_dict) # st\<rparr>
             else
               (case add_value parent key v of
                  Inl e \<Rightarrow> Inl e
                | Inr parent' \<Rightarrow> Inr \<lparr>heap = assign (heap s) p parent', stack = st\<rparr>))"

text \<open>One iteration of the loop over the lines (lines 18 to 47).\<close>

definition parse_line :: "string \<Rightarrow> pstate \<Rightarrow> exn + pstate" where
  "parse_line line s =
     (if strip line = [] then Inr s
      else
        let indent = length line - length (lstrip line)
        in case re_match line of
             None \<Rightarrow> Inr s
           | Some (g1, g2) \<Rightarrow> insert_entry indent (strip g1) (strip g2) s)"

fun parse_lines :: "string list \<Rightarrow> pstate \<Rightarrow> exn + pstate" where
  "parse_lines [] s = Inr s"
| "parse_lines (line # rest) s =
     (case parse_line line s of Inl e \<Rightarrow> Inl e | Inr s' \<Rightarrow> parse_lines rest s')"

text \<open>
  The value of \<open>result\<close> when the function returns: the tree read off the store from
  address 0. The first argument bounds the depth of the reading; a store of \<open>n\<close>
  dictionaries built by the parser has depth at most \<open>n\<close>.
\<close>

fun sequence :: "'a option list \<Rightarrow> 'a list option" where
  "sequence [] = Some []"
| "sequence (x # xs) =
     (case x of None \<Rightarrow> None
      | Some y \<Rightarrow> (case sequence xs of None \<Rightarrow> None | Some ys \<Rightarrow> Some (y # ys)))"

fun reify :: "nat \<Rightarrow> store \<Rightarrow> cell \<Rightarrow> pyval option" where
  "reify n h (CStr s) = Some (Str s)"
| "reify n h (CList xs) = map_option Lst (sequence (map (reify n h) xs))"
| "reify 0 h (CRef a) = None"
| "reify (Suc n) h (CRef a) =
     (if a < length h
      then map_option Dict
             (sequence (map (\<lambda>kv. map_option (Pair (fst kv)) (reify n h (snd kv))) (h ! a)))
      else None)"

definition initial :: pstate where
  "initial = \<lparr>heap = [[]], stack = [(0, 0)]\<rparr>"

definition parse_identify_output :: "string \<Rightarrow> exn + pyval" where
  "parse_identify_output text =
     (case parse_lines (splitlines text) initial of
        Inl e \<Rightarrow> Inl e
      | Inr s \<Rightarrow>
          (case reify (length (heap s)) (heap s) (CRef 0) of
             None \<Rightarrow> Inl DanglingRef
           | Some t \<Rightarrow> Inr t))"

section \<open>The file system and the environment\<close>

text \<open>
  Both utilities take the path of a target directory, a string, as their argument. A path
  of the model is the list of components that leads from the target directory to a file
  or a directory: \<open>[]\<close> is the target itself, \<open>os.path.join\<close> appends a component and
  \<open>os.path.basename\<close> takes the last one. The file system is an association list from
  paths to nodes, one entry per path, whose order is the order in which the operating
  system enumerates the entries. Only regular files and directories are modelled. The
  content of a sidecar file is the tree that \<open>json.dump\<close> has written, or the bytes that
  it had written when it raised.
\<close>

type_synonym path = "string list"

datatype content = Bytes string | Json pyval

datatype node = Dir | File content

type_synonym filesystem = "(path \<times> node) list"

text \<open>
  What the programs do to the outside world besides changing the file system: they print
  messages and start external commands. Messages are kept by kind, with the paths
  they mention, not by their wording.
\<close>

datatype message =
    NotValidDirectory | NoHeicFound
  | Collecting path | MetadataWritten path | ErrorCollecting path
  | Converting | ConversionComplete | ErrorConversion
  | Stripping | Stripped | ErrorStripping
  | Deleting | Deleted | ErrorDeleting
  | CreatedDirectory path

datatype arg = Word string | PathArg path

datatype event = Print message | Exec "arg list"

record world =
  fs :: filesystem
  trace :: "event list"

text \<open>
  What is not part of the repository is a parameter of the model, the environment:

  \<^item> \<open>tool\<close>: \<open>subprocess.run(cmd, check=True)\<close> either returns the completed process, of
    which the programs use the captured standard output only, or raises; the external
    command is a function from the command line and the file system to the outcome and
    the file system left behind.
  \<^item> \<open>open_error\<close>: the exception, if any, that \<open>open(p, "w")\<close> raises for a reason other
    than a directory standing at \<open>p\<close> (the name is too long, the permissions forbid it).
  \<^item> \<open>dump_error\<close>: the exception, if any, that \<open>json.dump\<close> raises on a tree (it
    recurses once for every level of nesting), with the bytes written until then.
  \<^item> \<open>pattern_dirs\<close>: \<open>glob.glob\<close> reads the whole of its argument as a pattern, the path
    of the target directory included. When that path holds one of the characters
    \<open>*\<close>, \<open>?\<close> and \<open>[\<close>, the entries listed are those of the directories that the path
    matches as a pattern, which depend on what stands beside the target directory: they
    are given by this function of the path and the file system.
\<close>

datatype outcome = Completed string | Raised exn

record env =
  tool :: "arg list \<Rightarrow> filesystem \<Rightarrow> outcome \<times> filesystem"
  open_error :: "path \<Rightarrow> filesystem \<Rightarrow> exn option"
  dump_error :: "content \<Rightarrow> (exn \<times> string) option"
  pattern_dirs :: "string \<Rightarrow> filesystem \<Rightarrow> path list"

definition run :: "env \<Rightarrow> arg list \<Rightarrow> world \<Rightarrow> outcome \<times> world" where
  "run e cmd w =
     (case tool e cmd (fs w) of (r, f') \<Rightarrow> (r, \<lparr>fs = f', trace = trace w @ [Exec cmd]\<rparr>))"

definition say :: "message \<Rightarrow> world \<Rightarrow> world" where
  "say m w = w\<lparr>trace := trace w @ [Print m]\<rparr>"

text \<open>\<open>os.path.isdir\<close> and \<open>os.path.isfile\<close>.\<close>

definition isdir :: "filesystem \<Rightarrow> path \<Rightarrow> bool" where
  "isdir f p \<longleftrightarrow> map_of f p = Some Dir"

definition isfile :: "filesystem \<Rightarrow> path \<Rightarrow> bool" where
  "isfile f p \<longleftrightarrow> (case map_of f p of Some (File c) \<Rightarrow> True | _ \<Rightarrow> False)"

text \<open>
  \<open>glob.glob(os.path.join(target, "*" + suffix))\<close> for the four patterns of the source,
  \<open>*\<close>, \<open>*.HEIC\<close>, \<open>*.heic\<close> and \<open>*.jpg\<close>. The directory part of the pattern is the
  path of the target: without a metacharacter it stands for the target directory itself,
  with one it stands for the directories it matches. Of each of these directories, the
  result holds the entries whose name ends with the suffix, upper and lower case being
  different, each joined to its directory. As in the shell, a pattern that does not
  itself start with a dot does not match a name that starts with one.
\<close>

definition has_magic :: "string \<Rightarrow> bool" where
  "has_magic s \<longleftrightarrow> list_ex (\<lambda>c. c \<in> set ''*?['') s"

definition glob_dirs :: "env \<Rightarrow> string \<Rightarrow> filesystem \<Rightarrow> path list" where
  "glob_dirs e target f = (if has_magic target then pattern_dirs e target f else [[]])"

definition listdir :: "filesystem \<Rightarrow> path \<Rightarrow> string list" where
  "listdir f d = map last (filter (\<lambda>p. p \<noteq> [] \<and> butlast p = d) (map fst f))"

definition ishidden :: "string \<Rightarrow> bool" where
  "ishidden name \<longleftrightarrow> (case name of [] \<Rightarrow> False | c # cs \<Rightarrow> c = CHR ''.'')"

definition endswith :: "string \<Rightarrow> string \<Rightarrow> bool" where
  "endswith name suffix \<longleftrightarrow>
     length suffix \<le> length name \<and> drop (length name - length suffix) name = suffix"

definition glob :: "env \<Rightarrow> string \<Rightarrow> filesystem \<Rightarrow> string \<Rightarrow> path list" where
  "glob e target f suffix =
     concat (map (\<lambda>d. map (\<lambda>name. d @ [name])
                          (filter (\<lambda>name. \<not> ishidden name \<and> endswith name suffix)
                             (listdir f d)))
               (glob_dirs e target f))"

definition basename :: "path \<Rightarrow> string" where
  "basename p = (if p = [] then [] else last p)"

text \<open>
  \<open>os.path.splitext(name)[0]\<close> for a name without separators: the name up to its last
  dot, unless there is no dot or only dots stand before the last one.
\<close>

definition splitext :: "string \<Rightarrow> string" where
  "splitext p =
     (if CHR ''.'' \<in> set p then
        let dotIndex = length p - 1 - length (takeWhile (\<lambda>c. c \<noteq> CHR ''.'') (rev p))
        in if list_ex (\<lambda>c. c \<noteq> CHR ''.'') (take dotIndex p) then take dotIndex p else p
      else p)"

text \<open>
  \<open>os.makedirs(p, exist_ok=True)\<close> where the parent of \<open>p\<close> is a directory, which is the
  case at both calls of the source: an existing directory is left alone, a regular file
  in the way raises.
\<close>

definition makedirs :: "path \<Rightarrow> filesystem \<Rightarrow> exn + filesystem" where
  "makedirs p f =
     (case map_of f p of
        None \<Rightarrow> Inr (AList.update p Dir f)
      | Some Dir \<Rightarrow> Inr f
      | Some (File c) \<Rightarrow> Inl FileExistsError)"

text \<open>
  \<open>with open(p, "w") as mf: json.dump(tree, mf, indent=2)\<close>. When \<open>open\<close> raises, the file
  system is as it was; when \<open>json.dump\<close> raises, the file is there with what had been
  written. The result is the exception, if any, and the world left behind.
\<close>

definition write_file :: "env \<Rightarrow> path \<Rightarrow> content \<Rightarrow> world \<Rightarrow> exn option \<times> world" where
  "write_file e p c w =
     (if isdir (fs w) p then (Some IsADirectoryError, w)
      else
        (case open_error e p (fs w) of
           Some x \<Rightarrow> (Some x, w)
         | None \<Rightarrow>
             (case dump_error e c of
                Some (x, written) \<Rightarrow>
                  (Some x, w\<lparr>fs := AList.update p (File (Bytes written)) (fs w)\<rparr>)
              | None \<Rightarrow> (None, w\<lparr>fs := AList.update p (File c) (fs w)\<rparr>))))"

section \<open>create_image_directories\<close>

text \<open>
  \<open>date_regex.search(filename)\<close> with the pattern \<open>\d{4}-\d{2}-\d{2}\<close>: the pattern is tried
  at every position of the name. Below code point 256 the decimal digits are \<open>0\<close> to \<open>9\<close>.
\<close>

definition is_digit :: "char \<Rightarrow> bool" where
  "is_digit c \<longleftrightarrow> c \<in> set ''0123456789''"

fun date_here :: "string \<Rightarrow> bool" where
  "date_here (y1 # y2 # y3 # y4 # h1 # m1 # m2 # h2 # d1 # d2 # rest) \<longleftrightarrow>
     is_digit y1 \<and> is_digit y2 \<and> is_digit y3 \<and> is_digit y4 \<and> h1 = CHR ''-'' \<and>
     is_digit m1 \<and> is_digit m2 \<and> h2 = CHR ''-'' \<and> is_digit d1 \<and> is_digit d2"
| "date_here s \<longleftrightarrow> False"

fun date_search :: "string \<Rightarrow> bool" where
  "date_search [] \<longleftrightarrow> False"
| "date_search (c # cs) \<longleftrightarrow> date_here (c # cs) \<or> date_search cs"

text \<open>
  The loop over the globbed paths (lines 24 to 35). The result is the exception that
  ended the run, if any, and the world as the run left it.
\<close>

fun make_date_dirs :: "path list \<Rightarrow> world \<Rightarrow> exn option \<times> world" where
  "make_date_dirs [] w = (None, w)"
| "make_date_dirs (filepath # rest) w =
     (if isfile (fs w) filepath then
        let filename = basename filepath
        in if date_search filename then
             let dir_name = splitext filename;
                 new_dir = [''images'', dir_name]
             in (case makedirs new_dir (fs w) of
                   Inl x \<Rightarrow> (Some x, w)
                 | Inr f' \<Rightarrow>
                     make_date_dirs rest (say (CreatedDirectory new_dir) (w\<lparr>fs := f'\<rparr>)))
           else make_date_dirs rest w
      else make_date_dirs rest w)"

text \<open>
  The function itself; \<open>os.path.isdir(target_dir)\<close> is whether the file system holds a
  directory at the path \<open>[]\<close>.
\<close>

definition create_image_directories :: "env \<Rightarrow> string \<Rightarrow> world \<Rightarrow> exn option \<times> world" where
  "create_image_directories e target_dir w =
     (if \<not> isdir (fs w) [] then (Some NotADirectoryError, w)
      else
        (case makedirs [''images''] (fs w) of
           Inl x \<Rightarrow> (Some x, w)
         | Inr f' \<Rightarrow>
             let w1 = w\<lparr>fs := f'\<rparr>;
                 files = glob e target_dir (fs w1) []
             in make_date_dirs files w1))"

section \<open>process_heic_images\<close>

definition identify_command :: "path \<Rightarrow> arg list" where
  "identify_command file_path =
     [Word ''magick'', Word ''identify'', Word ''-verbose'', PathArg file_path]"

definition convert_command :: "path list \<Rightarrow> arg list" where
  "convert_command heic_paths =
     [Word ''magick'', Word ''mogrify'', Word ''-format'', Word ''jpg'', Word ''-quality'',
      Word ''80%''] @ map PathArg heic_paths"

definition strip_command :: "path list \<Rightarrow> arg list" where
  "strip_command jpg_paths =
     [Word ''magick'', Word ''mogrify'', Word ''-strip''] @ map PathArg jpg_paths"

definition delete_command :: "path list \<Rightarrow> arg list" where
  "delete_command heic_paths = [Word ''rm'', Word ''-f''] @ map PathArg heic_paths"

definition metadata_file :: "path \<Rightarrow> path" where
  "metadata_file file_path = [splitext (basename file_path) @ ''_metadata.json'']"

text \<open>
  The loop of the first stage (lines 65 to 85): only \<open>CalledProcessError\<close> is caught, any
  other exception ends the run.
\<close>

fun collect_metadata :: "env \<Rightarrow> path list \<Rightarrow> world \<Rightarrow> exn option \<times> world" where
  "collect_metadata e [] w = (None, w)"
| "collect_metadata e (file_path # rest) w =
     (case run e (identify_command file_path) (say (Collecting file_path) w) of
        (Completed out, w1) \<Rightarrow>
          (case parse_identify_output out of
             Inl x \<Rightarrow> (Some x, w1)
           | Inr metadata_dict \<Rightarrow>
               (case write_file e (metadata_file file_path) (Json metadata_dict) w1 of
                  (Some x, w2) \<Rightarrow> (Some x, w2)
                | (None, w2) \<Rightarrow>
                    collect_metadata e rest
                      (say (MetadataWritten (metadata_file file_path)) w2)))
      | (Raised x, w1) \<Rightarrow>
          if x = CalledProcessError
          then collect_metadata e rest (say (ErrorCollecting file_path) w1)
          else (Some x, w1))"

text \<open>
  The shape shared by the three later stages: \<open>try: subprocess.run(cmd, check=True);
  print(done) except subprocess.CalledProcessError: print(failed)\<close>.
\<close>

definition try_run ::
  "env \<Rightarrow> arg list \<Rightarrow> message \<Rightarrow> message \<Rightarrow> world \<Rightarrow> exn option \<times> world" where
  "try_run e cmd done failed w =
     (case run e cmd w of
        (Completed out, w1) \<Rightarrow> (None, say done w1)
      | (Raised x, w1) \<Rightarrow>
          if x = CalledProcessError then (None, say failed w1) else (Some x, w1))"

definition convert_stage :: "env \<Rightarrow> path list \<Rightarrow> world \<Rightarrow> exn option \<times> world" where
  "convert_stage e heic_paths w =
     (if heic_paths \<noteq> []
      then try_run e (convert_command heic_paths) ConversionComplete ErrorConversion
             (say Converting w)
      else (None, w))"

definition strip_stage :: "env \<Rightarrow> string \<Rightarrow> world \<Rightarrow> exn option \<times> world" where
  "strip_stage e target_path w =
     (let jpg_paths = glob e target_path (fs w) ''.jpg''
      in if jpg_paths \<noteq> []
         then try_run e (strip_command jpg_paths) Stripped ErrorStripping (say Stripping w)
         else (None, w))"

definition delete_stage :: "env \<Rightarrow> path list \<Rightarrow> world \<Rightarrow> exn option \<times> world" where
  "delete_stage e heic_paths w =
     (if heic_paths \<noteq> []
      then try_run e (delete_command heic_paths) Deleted ErrorDeleting (say Deleting w)
      else (None, w))"

text \<open>Sequencing: a statement runs only if the ones before it raised nothing.\<close>

definition and_then ::
  "exn option \<times> world \<Rightarrow> (world \<Rightarrow> exn option \<times> world) \<Rightarrow> exn option \<times> world" where
  "and_then r k = (case r of (None, w) \<Rightarrow> k w | (Some x, w) \<Rightarrow> (Some x, w))"

definition process_heic_images :: "env \<Rightarrow> string \<Rightarrow> world \<Rightarrow> exn option \<times> world" where
  "process_heic_images e target_path w =
     (if \<not> isdir (fs w) [] then (None, say NotValidDirectory w)
      else
        let heic_paths =
              glob e target_path (fs w) ''.HEIC'' @ glob e target_path (fs w) ''.heic''
        in and_then
             (if heic_paths = [] then (None, say NoHeicFound w)
              else collect_metadata e heic_paths w)
             (\<lambda>w1. and_then (convert_stage e heic_paths w1)
               (\<lambda>w2. and_then (strip_stage e target_path w2)
                 (\<lambda>w3. delete_stage e heic_paths w3))))"

section \<open>Predicates of the properties\<close>

text \<open>
  The words of the specification for the shape of a line that is not skipped: the line
  holds a colon followed by a space.
\<close>

fun spec_key_value_shape :: "string \<Rightarrow> bool" where
  "spec_key_value_shape (c # d # rest) \<longleftrightarrow>
     (c = CHR '':'' \<and> d = CHR '' '') \<or> spec_key_value_shape (d # rest)"
| "spec_key_value_shape s \<longleftrightarrow> False"

text \<open>
  The shape of the returned tree: a list has at least two elements, its first element is
  not a list, the others are strings.
\<close>

fun is_str :: "pyval \<Rightarrow> bool" where
  "is_str (Str s) = True"
| "is_str (Lst xs) = False"
| "is_str (Dict kvs) = False"

fun is_lst :: "pyval \<Rightarrow> bool" where
  "is_lst (Lst xs) = True"
| "is_lst (Str s) = False"
| "is_lst (Dict kvs) = False"

fun tree_shape :: "pyval \<Rightarrow> bool" where
  "tree_shape (Str s) = True"
| "tree_shape (Lst []) = False"
| "tree_shape (Lst (x # r)) = (\<not> is_lst x \<and> tree_shape x \<and> r \<noteq> [] \<and> list_all is_str r)"
| "tree_shape (Dict kvs) = list_all (\<lambda>kv. tree_shape (snd kv)) kvs"

text \<open>The keys of every mapping of the tree are distinct.\<close>

fun unique_keys :: "pyval \<Rightarrow> bool" where
  "unique_keys (Str s) = True"
| "unique_keys (Lst xs) = list_all unique_keys xs"
| "unique_keys (Dict kvs) =
     (distinct (map fst kvs) \<and> list_all (\<lambda>kv. unique_keys (snd kv)) kvs)"

definition good :: "pyval \<Rightarrow> bool" where
  "good t \<longleftrightarrow> tree_shape t \<and> unique_keys t"

text \<open>
  The invariant of the store. The values of the dictionary at address \<open>a\<close> are strings,
  references to dictionaries created later than \<open>a\<close>, or lists of at least two elements
  that start with a string or such a reference and go on with strings; its keys are
  distinct. Every address on the stack is an address of the store.
\<close>

fun is_str_cell :: "cell \<Rightarrow> bool" where
  "is_str_cell (CStr s) = True"
| "is_str_cell (CList xs) = False"
| "is_str_cell (CRef a) = False"

fun atom_ok :: "nat \<Rightarrow> nat \<Rightarrow> cell \<Rightarrow> bool" where
  "atom_ok a n (CStr s) = True"
| "atom_ok a n (CRef b) = (a < b \<and> b < n)"
| "atom_ok a n (CList xs) = False"

fun cell_ok :: "nat \<Rightarrow> nat \<Rightarrow> cell \<Rightarrow> bool" where
  "cell_ok a n (CList []) = False"
| "cell_ok a n (CList (x # r)) = (atom_ok a n x \<and> r \<noteq> [] \<and> list_all is_str_cell r)"
| "cell_ok a n (CStr s) = True"
| "cell_ok a n (CRef b) = (a < b \<and> b < n)"

definition dict_ok :: "nat \<Rightarrow> nat \<Rightarrow> pydict \<Rightarrow> bool" where
  "dict_ok a n d \<longleftrightarrow> distinct (map fst d) \<and> list_all (\<lambda>kv. cell_ok a n (snd kv)) d"

definition store_ok :: "store \<Rightarrow> bool" where
  "store_ok h \<longleftrightarrow> h \<noteq> [] \<and> (\<forall>a < length h. dict_ok a (length h) (h ! a))"

definition state_ok :: "pstate \<Rightarrow> bool" where
  "state_ok s \<longleftrightarrow> store_ok (heap s) \<and> list_all (\<lambda>e. snd e < length (heap s)) (stack s)"



text \<open>
  Environments of the examples. In \<open>quiet\<close> every command completes with no output and
  leaves the file system alone, no write fails, and a target path with metacharacters
  matches no directory. In \<open>no_tool\<close> the command cannot be started. In \<open>fails_on_a\<close> the
  identification of \<open>a.HEIC\<close> exits with a non-zero status and every other command
  completes, printing \<open>X: 1\<close> and leaving in the directory the two files \<open>a.HEIC\<close> and
  \<open>b.heic\<close>.
\<close>

definition quiet :: env where
  "quiet = \<lparr>tool = (\<lambda>cmd f. (Completed [], f)), open_error = (\<lambda>p f. None),
             dump_error = (\<lambda>c. None), pattern_dirs = (\<lambda>s f. [])\<rparr>"




section \<open>The invariant of the store is kept\<close>

lemma atom_ok_mono: "atom_ok a n c \<Longrightarrow> n \<le> m \<Longrightarrow> atom_ok a m c"
  by (cases c) auto

lemma cell_ok_mono: "cell_ok a n c \<Longrightarrow> n \<le> m \<Longrightarrow> cell_ok a m c"
  by (induction a n c rule: cell_ok.induct) (auto intro: atom_ok_mono)

lemma dict_ok_mono: "dict_ok a n d \<Longrightarrow> n \<le> m \<Longrightarrow> dict_ok a m d"
  by (auto simp: dict_ok_def list_all_iff intro: cell_ok_mono)

lemma list_all_update:
  "list_all (\<lambda>kv. P (snd kv)) d \<Longrightarrow> P v \<Longrightarrow> list_all (\<lambda>kv. P (snd kv)) (AList.update k v d)"
  by (induction d) auto

lemma dict_ok_setitem:
  "dict_ok a n d \<Longrightarrow> cell_ok a n v \<Longrightarrow> dict_ok a n (setitem d k v)"
  unfolding dict_ok_def setitem_def
  by (simp add: distinct_update list_all_update)

lemma cell_ok_promote:
  "cell_ok a n c \<Longrightarrow> \<not> is_list c \<Longrightarrow> cell_ok a n (CList [c, CStr v])"
  by (cases c) auto

lemma cell_ok_append:
  "cell_ok a n (CList xs) \<Longrightarrow> cell_ok a n (CList (xs @ [CStr v]))"
  by (cases xs) auto

lemma map_of_cell_ok:
  "dict_ok a n d \<Longrightarrow> map_of d k = Some c \<Longrightarrow> cell_ok a n c"
  by (auto simp: dict_ok_def list_all_iff dest!: map_of_SomeD)

lemma add_value_eq:
  "add_value d k v =
     Inr (case map_of d k of
            None \<Rightarrow> setitem d k (CStr v)
          | Some (CList xs) \<Rightarrow> setitem d k (CList (xs @ [CStr v]))
          | Some c \<Rightarrow> setitem d k (CList [c, CStr v]))"
proof (cases "map_of d k")
  case None
  then have "\<not> contains d k"
    by (simp add: contains_def map_of_eq_None_iff)
  with None show ?thesis by (simp add: add_value_def)
next
  case (Some c)
  then have "contains d k"
    by (auto simp: contains_def dest: map_of_SomeD intro: rev_image_eqI)
  with Some show ?thesis
    by (cases c) (simp_all add: add_value_def getitem_def Let_def setitem_def update_conv')
qed

lemma add_value_ok:
  assumes "dict_ok a n d"
  shows "\<exists>d'. add_value d k v = Inr d' \<and> dict_ok a n d'"
proof (cases "map_of d k")
  case None
  with assms show ?thesis by (simp add: add_value_eq dict_ok_setitem)
next
  case (Some c)
  with assms have c: "cell_ok a n c" by (rule map_of_cell_ok)
  show ?thesis
  proof (cases "is_list c")
    case True
    then obtain xs where "c = CList xs" by (cases c) auto
    with Some c assms show ?thesis
      by (simp add: add_value_eq dict_ok_setitem cell_ok_append)
  next
    case False
    with c have "cell_ok a n (CList [c, CStr v])" by (rule cell_ok_promote)
    with Some False assms show ?thesis
      by (cases c) (simp_all add: add_value_eq dict_ok_setitem)
  qed
qed

lemma pop_stack_subset: "set (pop_stack i st) \<subseteq> set st"
  by (induction st) auto

lemma parent_of_bound:
  "list_all (\<lambda>e. snd e < n) st \<Longrightarrow> 0 < n \<Longrightarrow> parent_of st < n"
  by (cases st) auto

lemma store_ok_assign:
  assumes "store_ok h" "p < length h" "dict_ok p (length h) d"
  shows "store_ok (assign h p d)"
  using assms unfolding store_ok_def assign_def
  by (auto simp: nth_list_update)

lemma store_ok_alloc:
  assumes "store_ok h" "p < length h" "dict_ok p (length h) d"
  shows "store_ok (assign h p (setitem d k (CRef (length h))) @ [[]])"
proof -
  let ?n = "length h"
  have d': "dict_ok p (Suc ?n) (setitem d k (CRef ?n))"
    using assms by (intro dict_ok_setitem) (auto intro: dict_ok_mono)
  have "dict_ok a (Suc ?n) ((h[p := setitem d k (CRef ?n)] @ [[]]) ! a)"
    if "a < Suc ?n" for a
  proof (cases "a = ?n")
    case True
    then show ?thesis by (simp add: nth_append dict_ok_def)
  next
    case False
    with that have a: "a < ?n" by simp
    show ?thesis
    proof (cases "a = p")
      case True
      with a d' show ?thesis by (simp add: nth_append)
    next
      case False
      from assms(1) a have "dict_ok a ?n (h ! a)" by (simp add: store_ok_def)
      then have "dict_ok a (Suc ?n) (h ! a)" by (rule dict_ok_mono) simp
      with a False show ?thesis by (simp add: nth_append)
    qed
  qed
  then show ?thesis by (simp add: store_ok_def assign_def)
qed

lemma insert_entry_ok:
  assumes "state_ok s"
  shows "\<exists>s'. insert_entry indent k v s = Inr s' \<and> state_ok s'"
proof -
  let ?h = "heap s" and ?st = "pop_stack indent (stack s)"
  let ?p = "parent_of ?st"
  from assms have h: "store_ok ?h" and stk: "list_all (\<lambda>e. snd e < length ?h) (stack s)"
    by (simp_all add: state_ok_def)
  from h have pos: "0 < length ?h" by (simp add: store_ok_def)
  from stk have st: "list_all (\<lambda>e. snd e < length ?h) ?st"
    using pop_stack_subset [of indent "stack s"] by (auto simp: list_all_iff)
  then have p: "?p < length ?h" using pos by (rule parent_of_bound)
  with h have d: "dict_ok ?p (length ?h) (?h ! ?p)" by (simp add: store_ok_def)
  show ?thesis
  proof (cases "v = []")
    case True
    have "store_ok (assign ?h ?p (setitem (?h ! ?p) k (CRef (length ?h))) @ [[]])"
      using h p d by (rule store_ok_alloc)
    moreover have "list_all (\<lambda>e. snd e < Suc (length ?h)) ?st"
      using st by (auto simp: list_all_iff)
    ultimately show ?thesis
      using True p by (simp add: insert_entry_def deref_def Let_def state_ok_def assign_def)
  next
    case False
    from add_value_ok [OF d] obtain d' where
      d': "add_value (?h ! ?p) k v = Inr d'" "dict_ok ?p (length ?h) d'" by blast
    have "store_ok (assign ?h ?p d')" using h p d'(2) by (rule store_ok_assign)
    with False p d'(1) st show ?thesis
      by (simp add: insert_entry_def deref_def Let_def state_ok_def assign_def)
  qed
qed

lemma parse_line_ok:
  assumes "state_ok s"
  shows "\<exists>s'. parse_line line s = Inr s' \<and> state_ok s'"
  using assms insert_entry_ok [OF assms]
  by (auto simp: parse_line_def Let_def split: option.splits)

lemma parse_lines_ok:
  "state_ok s \<Longrightarrow> \<exists>s'. parse_lines ls s = Inr s' \<and> state_ok s'"
proof (induction ls arbitrary: s)
  case Nil
  then show ?case by simp
next
  case (Cons l ls)
  from parse_line_ok [OF Cons.prems] obtain s1 where
    "parse_line l s = Inr s1" "state_ok s1" by blast
  with Cons.IH [of s1] show ?case by simp
qed

lemma initial_ok: "state_ok initial"
  by (simp add: initial_def state_ok_def store_ok_def dict_ok_def)

lemma sequence_map_Some:
  "(\<And>x. x \<in> set xs \<Longrightarrow> \<exists>y. f x = Some y \<and> Q x y) \<Longrightarrow>
   \<exists>ys. sequence (map f xs) = Some ys \<and> list_all2 Q xs ys"
proof (induction xs)
  case Nil
  then show ?case by simp
next
  case (Cons x xs)
  from Cons.prems [of x] obtain y where y: "f x = Some y" "Q x y" by auto
  from Cons.IH Cons.prems obtain ys where "sequence (map f xs) = Some ys" "list_all2 Q xs ys"
    by auto
  with y show ?case by simp
qed

lemma reify_strs:
  "list_all is_str_cell r \<Longrightarrow>
   \<exists>ts. sequence (map (reify n h) r) = Some ts \<and> list_all is_str ts \<and> length ts = length r"
proof (induction r)
  case Nil
  then show ?case by simp
next
  case (Cons c r)
  then obtain s where "c = CStr s" by (cases c) auto
  with Cons show ?case by auto
qed

lemma is_str_unique: "list_all is_str ts \<Longrightarrow> list_all unique_keys ts"
  by (induction ts) (auto elim: is_str.elims)

lemma reify_ok:
  "store_ok h \<Longrightarrow> a < length h \<Longrightarrow> length h - a \<le> n \<Longrightarrow>
   \<exists>kvs. reify n h (CRef a) = Some (Dict kvs) \<and> map fst kvs = map fst (h ! a) \<and> good (Dict kvs)"
proof (induction n arbitrary: a)
  case 0
  then show ?case by simp
next
  case (Suc n)
  let ?len = "length h"
  let ?f = "\<lambda>kv. map_option (Pair (fst kv)) (reify n h (snd kv))"
  let ?Q = "\<lambda>kv kv'. fst kv' = fst kv \<and> good (snd kv')"
  from Suc.prems have d: "dict_ok a ?len (h ! a)" by (simp add: store_ok_def)
  have atom: "\<exists>t. reify n h c = Some t \<and> good t \<and> \<not> is_lst t" if "atom_ok a ?len c" for c
  proof (cases c)
    case (CStr s)
    then show ?thesis by (simp add: good_def)
  next
    case (CList xs)
    with that show ?thesis by simp
  next
    case (CRef b)
    with that have b: "a < b" "b < ?len" by simp_all
    with Suc.prems have "?len - b \<le> n" by simp
    from Suc.IH [OF Suc.prems(1) b(2) this] CRef show ?thesis by auto
  qed
  have cell: "\<exists>t. reify n h c = Some t \<and> good t" if "cell_ok a ?len c" for c
  proof (cases c)
    case (CList xs)
    with that obtain x r where xs: "xs = x # r" and x: "atom_ok a ?len x"
      and r: "r \<noteq> []" "list_all is_str_cell r"
      by (cases xs) auto
    from atom [OF x] obtain t where t: "reify n h x = Some t" "good t" "\<not> is_lst t" by blast
    from reify_strs [OF r(2)] obtain ts where
      ts: "sequence (map (reify n h) r) = Some ts" "list_all is_str ts" "length ts = length r"
      by blast
    with r have "ts \<noteq> []" by auto
    with t ts CList xs show ?thesis
      by (auto simp: good_def is_str_unique)
  next
    case (CStr s)
    then show ?thesis by (simp add: good_def)
  next
    case (CRef b)
    with that atom [of c] show ?thesis by auto
  qed
  have "\<exists>y. ?f kv = Some y \<and> ?Q kv y" if "kv \<in> set (h ! a)" for kv
  proof -
    from d that have "cell_ok a ?len (snd kv)" by (simp add: dict_ok_def list_all_iff)
    from cell [OF this] show ?thesis by auto
  qed
  from sequence_map_Some [of "h ! a" ?f ?Q, OF this] obtain kvs where
    kvs: "sequence (map ?f (h ! a)) = Some kvs" "list_all2 ?Q (h ! a) kvs" by blast
  from kvs(2) have keys: "map fst kvs = map fst (h ! a)"
    by (induction rule: list_all2_induct) auto
  from kvs(2) have "list_all (\<lambda>kv. good (snd kv)) kvs"
    by (induction rule: list_all2_induct) auto
  with keys d have "good (Dict kvs)"
    by (auto simp: good_def dict_ok_def list_all_iff)
  with kvs(1) keys Suc.prems(2) show ?case by simp
qed

lemma parse_identify_output_ok:
  "\<exists>kvs. parse_identify_output text = Inr (Dict kvs) \<and> good (Dict kvs)"
proof -
  from parse_lines_ok [OF initial_ok] obtain s where
    s: "parse_lines (splitlines text) initial = Inr s" "state_ok s" by blast
  then have h: "store_ok (heap s)" and pos: "0 < length (heap s)"
    by (simp_all add: state_ok_def store_ok_def)
  from reify_ok [OF h pos, of "length (heap s)"] s(1) show ?thesis
    by (auto simp: parse_identify_output_def)
qed

lemma space_not_colon: "is_space c \<Longrightarrow> c \<noteq> CHR '':''"
  by (auto simp: is_space_def)

lemma lazy_group_eq:
  "lazy_group acc s =
     (if CHR '':'' \<in> set s
      then Some (acc @ takeWhile (\<lambda>c. c \<noteq> CHR '':'') s,
                 group2 (tl (dropWhile (\<lambda>c. c \<noteq> CHR '':'') s)))
      else None)"
  by (induction s arbitrary: acc) auto

lemma lazy_group_split:
  "CHR '':'' \<notin> set u \<Longrightarrow> lazy_group acc (u @ CHR '':'' # v) = Some (acc @ u, group2 v)"
  by (induction u arbitrary: acc) auto

lemma lazy_group_none: "CHR '':'' \<notin> set s \<Longrightarrow> lazy_group acc s = None"
  by (simp add: lazy_group_eq)

lemma re_match_indented:
  assumes "list_all is_space ws" and "\<not> is_space a"
  shows "re_match (ws @ a # r) =
           (if CHR '':'' \<in> set r then lazy_group [a] r
            else if a = CHR '':'' \<and> ws \<noteq> [] then Some ([last ws], group2 r)
            else None)"
  using assms
proof (induction ws)
  case Nil
  then show ?case by (simp add: lazy_group_none)
next
  case (Cons w ws)
  then have w: "is_space w" "w \<noteq> CHR '':''" and ws: "CHR '':'' \<notin> set ws"
    by (auto simp: list_all_iff dest: space_not_colon)
  show ?case
  proof (cases "CHR '':'' \<in> set r")
    case True
    with Cons w show ?thesis by (auto simp: lazy_group_eq)
  next
    case noc: False
    show ?thesis
    proof (cases "a = CHR '':''")
      case True
      show ?thesis
      proof (cases ws)
        case Nil
        with Cons.prems noc True w show ?thesis by (simp add: lazy_group_none)
      next
        case (Cons w' ws')
        with Cons.IH Cons.prems noc True w show ?thesis by simp
      qed
    next
      case False
      with ws noc w have "CHR '':'' \<notin> set (ws @ a # r)" by simp
      then have "lazy_group [w] (ws @ a # r) = None" by (rule lazy_group_none)
      with Cons.IH Cons.prems noc False w show ?thesis by simp
    qed
  qed
qed

lemma line_decomp: "line = takeWhile is_space line @ lstrip line"
  by (simp add: lstrip_def)

lemma strip_empty_iff: "strip line = [] \<longleftrightarrow> lstrip line = []"
proof
  assume "strip line = []"
  then have all: "\<forall>x\<in>set (dropWhile is_space line). is_space x"
    by (simp add: strip_def dropWhile_eq_Nil_conv)
  show "lstrip line = []"
  proof (cases "dropWhile is_space line")
    case Nil
    then show ?thesis by (simp add: lstrip_def)
  next
    case (Cons a r)
    then have "\<not> is_space a" using hd_dropWhile [of is_space line] by simp
    with all Cons show ?thesis by simp
  qed
next
  assume "lstrip line = []"
  then have "dropWhile is_space line = []" by (simp only: lstrip_def)
  then show "strip line = []" by (simp only: strip_def rev.simps dropWhile.simps)
qed

lemma strip_group2: "strip (group2 v) = strip v"
  by (simp add: strip_def group2_def)

lemma lstrip_Cons_nonspace: "lstrip line = a # r \<Longrightarrow> \<not> is_space a"
  using hd_dropWhile [of is_space line] by (simp add: lstrip_def)

lemma takeWhile_all_space: "list_all is_space (takeWhile is_space line)"
  by (simp add: list_all_iff) (meson set_takeWhileD)

lemma re_match_lstrip:
  assumes "lstrip line = a # r"
  shows "re_match line =
           (if CHR '':'' \<in> set r then lazy_group [a] r
            else if a = CHR '':'' \<and> line \<noteq> lstrip line
                 then Some ([last (takeWhile is_space line)], group2 r)
            else None)"
proof -
  let ?ws = "takeWhile is_space line"
  have "line = ?ws @ a # r" using assms line_decomp [of line] by simp
  moreover have "?ws \<noteq> [] \<longleftrightarrow> line \<noteq> lstrip line"
    using line_decomp [of line] by auto
  ultimately show ?thesis
    using re_match_indented [OF takeWhile_all_space lstrip_Cons_nonspace [OF assms], of line r]
    by metis
qed

lemma parse_line_skip:
  assumes "CHR '':'' \<notin> set (tl line)"
  shows "parse_line line s = Inr s"
proof (cases "lstrip line")
  case Nil
  then show ?thesis by (simp add: parse_line_def strip_empty_iff)
next
  case (Cons a r)
  have eq: "line = takeWhile is_space line @ a # r" using Cons line_decomp [of line] by simp
  have r: "CHR '':'' \<notin> set r"
  proof
    assume "CHR '':'' \<in> set r"
    then have "CHR '':'' \<in> set (tl (takeWhile is_space line @ a # r))"
      by (cases "takeWhile is_space line") auto
    with eq assms show False by simp
  qed
  have "\<not> (a = CHR '':'' \<and> line \<noteq> lstrip line)"
  proof
    assume c: "a = CHR '':'' \<and> line \<noteq> lstrip line"
    then have "takeWhile is_space line \<noteq> []" using eq Cons by auto
    then have "CHR '':'' \<in> set (tl (takeWhile is_space line @ a # r))"
      using c by (cases "takeWhile is_space line") auto
    with eq assms show False by simp
  qed
  with r have "re_match line = None" by (simp add: re_match_lstrip [OF Cons])
  then show ?thesis by (simp add: parse_line_def)
qed

lemma parse_line_split:
  assumes "lstrip line = a # u @ CHR '':'' # v" and "CHR '':'' \<notin> set u"
  shows "parse_line line s =
           insert_entry (length line - length (lstrip line)) (strip (a # u)) (strip v) s"
proof -
  from assms(1) have ne: "strip line \<noteq> []" by (simp add: strip_empty_iff)
  have "re_match line = Some (a # u, group2 v)"
    using re_match_lstrip [OF assms(1)] assms(2) by (simp add: lazy_group_split)
  with ne show ?thesis by (simp add: parse_line_def strip_group2)
qed

lemma parse_line_lone_colon:
  assumes "lstrip line = CHR '':'' # v" and "CHR '':'' \<notin> set v" and "line \<noteq> lstrip line"
  shows "parse_line line s =
           insert_entry (length line - length (lstrip line)) [] (strip v) s"
proof -
  from assms(1) have ne: "strip line \<noteq> []" by (simp add: strip_empty_iff)
  have "takeWhile is_space line \<noteq> []" using assms(3) line_decomp [of line] by auto
  then have "is_space (last (takeWhile is_space line))"
    using takeWhile_all_space [of line] by (simp add: list_all_iff)
  then have k: "strip [last (takeWhile is_space line)] = []" by (simp add: strip_def)
  have "re_match line = Some ([last (takeWhile is_space line)], group2 v)"
    using re_match_lstrip [OF assms(1)] assms(2,3) by simp
  with ne k show ?thesis by (simp add: parse_line_def strip_group2)
qed

lemma reachable_ok: "parse_lines ls initial = Inr s \<Longrightarrow> state_ok s"
  using parse_lines_ok [OF initial_ok, of ls] by auto

lemma parent_in_store:
  assumes "state_ok s"
  shows "parent_of (pop_stack indent (stack s)) < length (heap s)"
proof -
  from assms have "list_all (\<lambda>e. snd e < length (heap s)) (pop_stack indent (stack s))"
    using pop_stack_subset [of indent "stack s"] by (auto simp: state_ok_def list_all_iff)
  moreover from assms have "0 < length (heap s)" by (simp add: state_ok_def store_ok_def)
  ultimately show ?thesis by (rule parent_of_bound)
qed

lemma insert_entry_value:
  assumes "state_ok s" and "v \<noteq> []"
  shows "insert_entry indent key v s =
           Inr \<lparr>heap = (heap s)[parent_of (pop_stack indent (stack s)) :=
                   (case map_of (heap s ! parent_of (pop_stack indent (stack s))) key of
                      None \<Rightarrow> setitem (heap s ! parent_of (pop_stack indent (stack s))) key (CStr v)
                    | Some (CList xs) \<Rightarrow>
                        setitem (heap s ! parent_of (pop_stack indent (stack s))) key
                          (CList (xs @ [CStr v]))
                    | Some c \<Rightarrow>
                        setitem (heap s ! parent_of (pop_stack indent (stack s))) key
                          (CList [c, CStr v]))],
                 stack = pop_stack indent (stack s)\<rparr>"
  using assms(2) parent_in_store [OF assms(1), of indent]
  by (simp add: insert_entry_def deref_def Let_def add_value_eq assign_def)

lemma insert_entry_open:
  assumes "state_ok s"
  shows "insert_entry indent key [] s =
           Inr \<lparr>heap = (heap s)[parent_of (pop_stack indent (stack s)) :=
                   setitem (heap s ! parent_of (pop_stack indent (stack s))) key
                     (CRef (length (heap s)))] @ [[]],
                 stack = (indent, length (heap s)) # pop_stack indent (stack s)\<rparr>"
  using parent_in_store [OF assms, of indent]
  by (simp add: insert_entry_def deref_def Let_def assign_def)

lemma pop_stack_zero: "pop_stack 0 st = []"
  by (induction st) auto

section \<open>Properties of parse_identify_output\<close>

text \<open>
  C4. On the text of the three lines \<open>A:\<close>, \<open>  B: 1\<close>, \<open>  C: 2\<close>, each ended by a line
  feed, the parser returns the mapping of \<open>A\<close> to the mapping of \<open>B\<close> to \<open>1\<close> and \<open>C\<close> to
  \<open>2\<close>: the empty value after \<open>A\<close> opens a nested mapping and the two indented lines are
  inserted into it as strings.
\<close>

theorem nested_block_example:
  "parse_identify_output ''A:\<newline>  B: 1\<newline>  C: 2\<newline>'' =
     Inr (Dict [(''A'', Dict [(''B'', Str ''1''), (''C'', Str ''2'')])])"
  by code_simp

text \<open>
  C5. In every state the parser can reach, when the loop body inserts a non-empty value
  under a key for which the parent mapping holds a string, the string is promoted to a
  one-element list and the new value is appended to it, the rest of the store and the
  popped stack being as they were. In particular the text of the two lines \<open>X: 1\<close> and
  \<open>X: 2\<close> gives the mapping of \<open>X\<close> to the list of \<open>1\<close> and \<open>2\<close>.
\<close>

theorem second_occurrence_promoted:
  assumes "parse_lines ls initial = Inr s"
    and "v \<noteq> []"
    and "map_of (heap s ! parent_of (pop_stack indent (stack s))) key = Some (CStr old)"
  shows "insert_entry indent key v s =
           Inr \<lparr>heap = (heap s)[parent_of (pop_stack indent (stack s)) :=
                   setitem (heap s ! parent_of (pop_stack indent (stack s))) key
                     (CList [CStr old, CStr v])],
                 stack = pop_stack indent (stack s)\<rparr>
         \<and> parse_identify_output ''X: 1\<newline>X: 2\<newline>'' =
             Inr (Dict [(''X'', Lst [Str ''1'', Str ''2''])])"
proof
  from assms(1) have "state_ok s" by (rule reachable_ok)
  from insert_entry_value [OF this assms(2), of indent key] assms(3)
  show "insert_entry indent key v s =
           Inr \<lparr>heap = (heap s)[parent_of (pop_stack indent (stack s)) :=
                   setitem (heap s ! parent_of (pop_stack indent (stack s))) key
                     (CList [CStr old, CStr v])],
                 stack = pop_stack indent (stack s)\<rparr>"
    by simp
  show "parse_identify_output ''X: 1\<newline>X: 2\<newline>'' =
          Inr (Dict [(''X'', Lst [Str ''1'', Str ''2''])])"
    by code_simp
qed

theorem second_occurrence_promoted_witness:
  "insert_entry 0 ''X'' ''2'' \<lparr>heap = [[(''X'', CStr ''1'')]], stack = []\<rparr> =
     Inr \<lparr>heap = [[(''X'', CList [CStr ''1'', CStr ''2''])]], stack = []\<rparr>"
proof -
  have 1: "parse_lines [''X: 1''] initial = Inr \<lparr>heap = [[(''X'', CStr ''1'')]], stack = []\<rparr>"
    by code_simp
  have 2: "''2'' \<noteq> []" by simp
  have 3: "map_of (heap \<lparr>heap = [[(''X'', CStr ''1'')]], stack = []\<rparr> !
             parent_of (pop_stack 0 (stack \<lparr>heap = [[(''X'', CStr ''1'')]], stack = []\<rparr>)))
             ''X'' = Some (CStr ''1'')"
    by simp
  from second_occurrence_promoted [OF 1 2 3] show ?thesis by (simp add: setitem_def)
qed

text \<open>
  C10. For every input text the parser returns a mapping and raises nothing. A line at
  indentation 0 pops every entry of the stack, the seeded one included, and the parent
  then is the dictionary at address 0, which is \<open>result\<close>.
\<close>

theorem parse_identify_output_total:
  "(\<exists>kvs. parse_identify_output text = Inr (Dict kvs)) \<and>
   pop_stack 0 st = [] \<and> parent_of (pop_stack 0 st) = 0"
  using parse_identify_output_ok [of "text"] by (auto simp: pop_stack_zero)

text \<open>
  C6, as the code has it. For every input text, every value of the returned mapping is a
  string, a nested mapping of the same shape, or a list of at least two elements whose
  first element is a string or a nested mapping of the same shape and whose other
  elements are strings; a list never holds a list. (A list holds a nested mapping when
  a key first opens a block and then comes again with a value.)
\<close>

theorem result_shape:
  "\<exists>kvs. parse_identify_output text = Inr (Dict kvs) \<and> tree_shape (Dict kvs)"
  using parse_identify_output_ok [of "text"] by (auto simp: good_def)

theorem result_shape_witness: "tree_shape (Dict [(''X'', Lst [Dict [], Str ''1''])])"
proof -
  from result_shape [of "''X:\<newline>X: 1\<newline>''"] obtain kvs where
    "parse_identify_output ''X:\<newline>X: 1\<newline>'' = Inr (Dict kvs)" "tree_shape (Dict kvs)"
    by blast
  moreover have "parse_identify_output ''X:\<newline>X: 1\<newline>'' =
      Inr (Dict [(''X'', Lst [Dict [], Str ''1''])])"
    by code_simp
  ultimately show ?thesis by simp
qed

text \<open>
  C6 as stated fails: on the two lines \<open>X:\<close> and \<open>X: 1\<close> the list stored under \<open>X\<close> holds
  the nested mapping that the first line opened.
\<close>

theorem list_holds_mapping:
  "parse_identify_output ''X:\<newline>X: 1\<newline>'' = Inr (Dict [(''X'', Lst [Dict [], Str ''1''])])
   \<and> \<not> list_all is_str [Dict [], Str ''1'']"
  by code_simp

text \<open>
  C2, as the code has it. The keys of every mapping of the result, at every nesting
  level, are distinct. In every state the parser can reach, when the parent mapping holds
  a value under the key of the line: a non-empty value of the line is appended to the
  stored value, which is first wrapped into a list unless it is one, and an empty value
  of the line replaces the stored value by a new empty mapping, which is pushed.
\<close>

theorem repeated_key_handling:
  assumes "parse_lines ls initial = Inr s"
    and "map_of (heap s ! parent_of (pop_stack indent (stack s))) key = Some c"
  shows "(\<exists>kvs. parse_identify_output text = Inr (Dict kvs) \<and> unique_keys (Dict kvs)) \<and>
         (v \<noteq> [] \<longrightarrow>
            insert_entry indent key v s =
              Inr \<lparr>heap = (heap s)[parent_of (pop_stack indent (stack s)) :=
                      setitem (heap s ! parent_of (pop_stack indent (stack s))) key
                        (case c of CList xs \<Rightarrow> CList (xs @ [CStr v])
                         | _ \<Rightarrow> CList [c, CStr v])],
                    stack = pop_stack indent (stack s)\<rparr>) \<and>
         insert_entry indent key [] s =
           Inr \<lparr>heap = (heap s)[parent_of (pop_stack indent (stack s)) :=
                   setitem (heap s ! parent_of (pop_stack indent (stack s))) key
                     (CRef (length (heap s)))] @ [[]],
                 stack = (indent, length (heap s)) # pop_stack indent (stack s)\<rparr>"
proof -
  from assms(1) have ok: "state_ok s" by (rule reachable_ok)
  have a: "\<exists>kvs. parse_identify_output text = Inr (Dict kvs) \<and> unique_keys (Dict kvs)"
    using parse_identify_output_ok [of "text"] by (auto simp: good_def)
  have b: "insert_entry indent key v s =
             Inr \<lparr>heap = (heap s)[parent_of (pop_stack indent (stack s)) :=
                     setitem (heap s ! parent_of (pop_stack indent (stack s))) key
                       (case c of CList xs \<Rightarrow> CList (xs @ [CStr v])
                        | _ \<Rightarrow> CList [c, CStr v])],
                   stack = pop_stack indent (stack s)\<rparr>" if "v \<noteq> []"
    using insert_entry_value [OF ok that, of indent key] assms(2) by (cases c) simp_all
  from a b insert_entry_open [OF ok, of indent key] show ?thesis by blast
qed

theorem repeated_key_handling_witness:
  "insert_entry 0 ''X'' ''3'' \<lparr>heap = [[(''X'', CList [CStr ''1'', CStr ''2''])]], stack = []\<rparr> =
     Inr \<lparr>heap = [[(''X'', CList [CStr ''1'', CStr ''2'', CStr ''3''])]], stack = []\<rparr> \<and>
   insert_entry 0 ''X'' [] \<lparr>heap = [[(''X'', CList [CStr ''1'', CStr ''2''])]], stack = []\<rparr> =
     Inr \<lparr>heap = [[(''X'', CRef 1)], []], stack = [(0, 1)]\<rparr>"
proof -
  let ?s = "\<lparr>heap = [[(''X'', CList [CStr ''1'', CStr ''2''])]], stack = []\<rparr>"
  have 1: "parse_lines [''X: 1'', ''X: 2''] initial = Inr ?s"
    by code_simp
  have 2: "map_of (heap ?s ! parent_of (pop_stack 0 (stack ?s))) ''X'' =
             Some (CList [CStr ''1'', CStr ''2''])"
    by simp
  from repeated_key_handling [OF 1 2, of "[]" "''3''"] show ?thesis
    by (simp add: setitem_def)
qed

text \<open>
  C2 as stated fails: on the two lines \<open>X: 1\<close> and \<open>X:\<close> the string stored by the first
  line is gone from the result, overwritten by the empty mapping of the second.
\<close>

theorem empty_repeat_overwrites:
  "parse_identify_output ''X: 1\<newline>'' = Inr (Dict [(''X'', Str ''1'')]) \<and>
   parse_identify_output ''X: 1\<newline>X:\<newline>'' = Inr (Dict [(''X'', Dict [])])"
  by code_simp

text \<open>
  C3, as the code has it. A non-blank line is split at the first colon that stands after
  at least one character of the line behind its leading whitespace, whether or not a
  space follows the colon; key and value are the stripped parts before and after that
  colon. If the only colon of an indented line is its first character behind the
  whitespace, the key is empty. A line with no colon behind its first character is
  skipped and leaves the state of the parser as it was.
\<close>

theorem line_split_at_first_colon:
  "(CHR '':'' \<notin> set (tl line) \<longrightarrow> parse_line line s = Inr s) \<and>
   (lstrip line = a # u @ CHR '':'' # v \<and> CHR '':'' \<notin> set u \<longrightarrow>
      parse_line line s =
        insert_entry (length line - length (lstrip line)) (strip (a # u)) (strip v) s) \<and>
   (lstrip line = CHR '':'' # v \<and> CHR '':'' \<notin> set v \<and> line \<noteq> lstrip line \<longrightarrow>
      parse_line line s = insert_entry (length line - length (lstrip line)) [] (strip v) s)"
  using parse_line_skip [of line s] parse_line_split [of line a u v s]
    parse_line_lone_colon [of line v s]
  by blast

theorem line_split_at_first_colon_witness:
  "parse_line ''no colon here'' initial = Inr initial \<and>
   parse_line ''  a:b: c'' initial = insert_entry 2 ''a'' ''b: c'' initial \<and>
   parse_line '' : c'' initial = insert_entry 1 [] ''c'' initial"
proof -
  have 1: "CHR '':'' \<notin> set (tl ''no colon here'')" by simp
  have 2: "lstrip ''  a:b: c'' = CHR ''a'' # [] @ CHR '':'' # ''b: c'' \<and> CHR '':'' \<notin> set []"
    by code_simp
  have 3: "lstrip '' : c'' = CHR '':'' # '' c'' \<and> CHR '':'' \<notin> set '' c'' \<and>
           '' : c'' \<noteq> lstrip '' : c''"
    by code_simp
  have 4: "strip ''b: c'' = ''b: c''" "strip '' c'' = ''c''" "strip [CHR ''a''] = ''a''"
    by code_simp+
  have 5: "length ''  a:b: c'' - length (lstrip ''  a:b: c'') = 2"
    "length '' : c'' - length (lstrip '' : c'') = 1"
    by code_simp+
  have "parse_line ''no colon here'' initial = Inr initial"
    using line_split_at_first_colon [where line = "''no colon here''" and s = initial] 1
    by blast
  moreover have "parse_line ''  a:b: c'' initial =
      insert_entry (length ''  a:b: c'' - length (lstrip ''  a:b: c''))
        (strip [CHR ''a'']) (strip ''b: c'') initial"
    using line_split_at_first_colon
      [where line = "''  a:b: c''" and a = "CHR ''a''" and u = "[]" and v = "''b: c''"
         and s = initial] 2
    by blast
  moreover have "parse_line '' : c'' initial =
      insert_entry (length '' : c'' - length (lstrip '' : c'')) [] (strip '' c'') initial"
    using line_split_at_first_colon [where line = "'' : c''" and v = "'' c''" and s = initial] 3
    by blast
  ultimately show ?thesis by (simp only: 4 5 simp_thms)
qed

text \<open>
  C3 as stated fails: the line \<open>a:b\<close> holds no colon followed by a space, and it is not
  skipped; it puts \<open>b\<close> under the key \<open>a\<close>.
\<close>

theorem colon_without_space_not_skipped:
  "\<not> spec_key_value_shape ''a:b'' \<and>
   parse_identify_output ''a:b'' = Inr (Dict [(''a'', Str ''b'')])"
  by code_simp

section \<open>Facts about the two utilities\<close>

lemma trace_say: "trace (say m w) = trace w @ [Print m]" and fs_say: "fs (say m w) = fs w"
  by (simp_all add: say_def)

lemma run_cases:
  obtains out f' where "tool e cmd (fs w) = (Completed out, f')"
      "run e cmd w = (Completed out, \<lparr>fs = f', trace = trace w @ [Exec cmd]\<rparr>)"
  | x f' where "tool e cmd (fs w) = (Raised x, f')"
      "run e cmd w = (Raised x, \<lparr>fs = f', trace = trace w @ [Exec cmd]\<rparr>)"
proof (cases "tool e cmd (fs w)")
  case (Pair r f')
  then show ?thesis using that by (cases r) (auto simp: run_def)
qed

lemma try_run_trace:
  "\<exists>evs. trace (snd (try_run e cmd a b w)) = trace w @ Exec cmd # evs"
  by (rule run_cases [of e cmd w]) (auto simp: try_run_def trace_say)

lemma glob_plain:
  "\<not> has_magic target \<Longrightarrow>
   glob e target f suffix =
     map (\<lambda>name. [name])
       (filter (\<lambda>name. \<not> ishidden name \<and> endswith name suffix) (listdir f []))"
  by (simp add: glob_def glob_dirs_def)













lemma makedirs_map: "makedirs p f = Inr f' \<Longrightarrow> map_of f' = (map_of f)(p \<mapsto> Dir)"
  by (auto simp: makedirs_def update_conv' fun_eq_iff split: option.splits node.splits)

lemma makedirs_same: "isdir f p \<Longrightarrow> makedirs p f = Inr f"
  by (simp add: makedirs_def isdir_def)

lemma makedirs_isfile:
  assumes "makedirs q f = Inr f'"
  shows "isfile f' p = isfile f p"
proof (cases "p = q")
  case True
  from assms have "map_of f q = None \<or> map_of f q = Some Dir"
    by (auto simp: makedirs_def split: option.splits node.splits)
  with True makedirs_map [OF assms] show ?thesis by (auto simp: isfile_def)
next
  case False
  with makedirs_map [OF assms] show ?thesis by (simp add: isfile_def)
qed

lemma make_date_dirs_map:
  "make_date_dirs ps w = (None, w') \<Longrightarrow>
   map_of (fs w') q =
     (if \<exists>p\<in>set ps. isfile (fs w) p \<and> date_search (basename p) \<and>
                      q = [''images'', splitext (basename p)]
      then Some Dir else map_of (fs w) q)"
proof (induction ps arbitrary: w)
  case Nil
  then show ?case by simp
next
  case (Cons p ps)
  show ?case
  proof (cases "isfile (fs w) p \<and> date_search (basename p)")
    case False
    with Cons.prems have "make_date_dirs ps w = (None, w')"
      by (auto simp: Let_def split: if_splits)
    from Cons.IH [OF this] False show ?thesis by auto
  next
    case True
    let ?nd = "[''images'', splitext (basename p)]"
    from True Cons.prems obtain f1 where
      f1: "makedirs ?nd (fs w) = Inr f1"
      and rest: "make_date_dirs ps (say (CreatedDirectory ?nd) (w\<lparr>fs := f1\<rparr>)) = (None, w')"
      by (auto simp: Let_def split: sum.splits)
    have files: "isfile f1 p' = isfile (fs w) p'" for p'
      using f1 by (rule makedirs_isfile)
    from Cons.IH [OF rest] makedirs_map [OF f1] files True show ?thesis
      by (auto simp: fs_say)
  qed
qed

lemma make_date_dirs_again:
  "(\<And>p. p \<in> set ps \<Longrightarrow> isfile (fs w) p \<Longrightarrow> date_search (basename p) \<Longrightarrow>
      isdir (fs w) [''images'', splitext (basename p)]) \<Longrightarrow>
   fst (make_date_dirs ps w) = None \<and> fs (snd (make_date_dirs ps w)) = fs w"
proof (induction ps arbitrary: w)
  case Nil
  then show ?case by simp
next
  case (Cons p ps)
  show ?case
  proof (cases "isfile (fs w) p \<and> date_search (basename p)")
    case False
    with Cons.IH [of w] Cons.prems show ?thesis by (auto simp: Let_def)
  next
    case True
    let ?nd = "[''images'', splitext (basename p)]"
    let ?w1 = "say (CreatedDirectory ?nd) (w\<lparr>fs := fs w\<rparr>)"
    from True Cons.prems have "isdir (fs w) ?nd" by simp
    then have m: "makedirs ?nd (fs w) = Inr (fs w)" by (rule makedirs_same)
    have "fst (make_date_dirs ps ?w1) = None \<and> fs (snd (make_date_dirs ps ?w1)) = fs ?w1"
      using Cons.prems by (intro Cons.IH) (simp_all add: fs_say)
    with True m show ?thesis by (simp add: Let_def fs_say)
  qed
qed

lemma isfile_listed: "isfile f p \<Longrightarrow> p \<in> fst ` set f"
proof -
  assume "isfile f p"
  then obtain c where "map_of f p = Some (File c)"
    by (auto simp: isfile_def split: option.splits node.splits)
  then have "(p, File c) \<in> set f" by (rule map_of_SomeD)
  then show ?thesis by (rule rev_image_eqI) simp
qed


lemma makedirs_update: "makedirs p f = Inr f' \<Longrightarrow> f' = AList.update p Dir f"
  by (auto simp: makedirs_def update_triv split: option.splits node.splits)

lemma basename_snoc: "basename (d @ [name]) = name"
  by (simp add: basename_def)

lemma in_listdir: "name \<in> set (listdir f d) \<longleftrightarrow> d @ [name] \<in> fst ` set f"
proof
  assume "name \<in> set (listdir f d)"
  then obtain q where q: "q \<in> fst ` set f" "q \<noteq> []" "butlast q = d" "name = last q"
    by (auto simp: listdir_def)
  from q(2) have "butlast q @ [last q] = q" by (rule append_butlast_last_id)
  with q show "d @ [name] \<in> fst ` set f" by simp
next
  assume "d @ [name] \<in> fst ` set f"
  then have "d @ [name] \<in> set (filter (\<lambda>p. p \<noteq> [] \<and> butlast p = d) (map fst f))" by simp
  then have "last (d @ [name]) \<in> last ` set (filter (\<lambda>p. p \<noteq> [] \<and> butlast p = d) (map fst f))"
    by (rule imageI)
  then show "name \<in> set (listdir f d)" by (simp add: listdir_def)
qed

lemma in_glob_all:
  "p \<in> set (glob e target f []) \<longleftrightarrow>
     (\<exists>d name. p = d @ [name] \<and> d \<in> set (glob_dirs e target f) \<and>
               d @ [name] \<in> fst ` set f \<and> \<not> ishidden name)"
proof -
  have "p \<in> set (glob e target f []) \<longleftrightarrow>
      (\<exists>d name. p = d @ [name] \<and> d \<in> set (glob_dirs e target f) \<and>
                name \<in> set (listdir f d) \<and> \<not> ishidden name)"
    by (auto simp: glob_def endswith_def)
  then show ?thesis by (simp only: in_listdir)
qed

lemma create_image_directories_NoneD:
  assumes "create_image_directories e target w = (None, w')"
  shows "isdir (fs w) [] \<and>
    makedirs [''images''] (fs w) = Inr (AList.update [''images''] Dir (fs w)) \<and>
    make_date_dirs (glob e target (AList.update [''images''] Dir (fs w)) [])
       (w\<lparr>fs := AList.update [''images''] Dir (fs w)\<rparr>) = (None, w')"
proof -
  from assms obtain f0 where 1: "isdir (fs w) []" and 2: "makedirs [''images''] (fs w) = Inr f0"
    and 3: "make_date_dirs (glob e target f0 []) (w\<lparr>fs := f0\<rparr>) = (None, w')"
    by (auto simp: create_image_directories_def Let_def split: if_splits sum.splits)
  from 2 have eq: "f0 = AList.update [''images''] Dir (fs w)" by (rule makedirs_update)
  from 2 have "makedirs [''images''] (fs w) = Inr (AList.update [''images''] Dir (fs w))"
    unfolding eq .
  moreover from 3 have "make_date_dirs (glob e target (AList.update [''images''] Dir (fs w)) [])
       (w\<lparr>fs := AList.update [''images''] Dir (fs w)\<rparr>) = (None, w')"
    unfolding eq .
  ultimately show ?thesis using 1 by blast
qed

lemma create_image_directories_again:
  assumes "create_image_directories e target w = (None, w1)"
    and "glob_dirs e target (fs w1) = glob_dirs e target (AList.update [''images''] Dir (fs w))"
  shows "fst (create_image_directories e target w1) = None \<and>
         fs (snd (create_image_directories e target w1)) = fs w1"
proof -
  let ?f0 = "AList.update [''images''] Dir (fs w)"
  note D = create_image_directories_NoneD [OF assms(1)]
  from D have dir: "isdir (fs w) []" by (rule conjunct1)
  from D have f0: "makedirs [''images''] (fs w) = Inr ?f0"
    by (rule conjunct2 [THEN conjunct1])
  from D have loop: "make_date_dirs (glob e target ?f0 []) (w\<lparr>fs := ?f0\<rparr>) = (None, w1)"
    by (rule conjunct2 [THEN conjunct2])
  let ?files = "glob e target ?f0 []"
  have m: "map_of (fs w1) q =
     (if \<exists>p\<in>set ?files. isfile ?f0 p \<and> date_search (basename p) \<and>
                      q = [''images'', splitext (basename p)]
      then Some Dir else map_of ?f0 q)" for q
  proof -
    have "fs (w\<lparr>fs := ?f0\<rparr>) = ?f0" by simp
    with make_date_dirs_map [OF loop, of q] show ?thesis by (simp only:)
  qed
  have f0m: "map_of ?f0 = (map_of (fs w))([''images''] \<mapsto> Dir)"
    using f0 by (rule makedirs_map)
  have dir1: "isdir (fs w1) []"
    using m [of "[]"] f0m dir by (simp add: isdir_def)
  have "isdir (fs w1) [''images'']"
    using m [of "[''images'']"] f0m by (simp add: isdir_def)
  then have mk: "makedirs [''images''] (fs w1) = Inr (fs w1)" by (rule makedirs_same)
  have "isdir (fs w1) [''images'', splitext (basename p)]"
    if "p \<in> set (glob e target (fs w1) [])" "isfile (fs w1) p" "date_search (basename p)" for p
  proof -
    from that(2) m [of p] have file0: "isfile ?f0 p"
      by (auto simp: isfile_def split: option.splits node.splits if_splits)
    then have listed: "p \<in> fst ` set ?f0" by (rule isfile_listed)
    from that(1) obtain d name where dn: "p = d @ [name]"
      "d \<in> set (glob_dirs e target (fs w1))" "\<not> ishidden name"
      unfolding in_glob_all by blast
    from dn(2) have d0: "d \<in> set (glob_dirs e target ?f0)" unfolding assms(2) .
    from listed have "d @ [name] \<in> fst ` set ?f0" unfolding dn(1) .
    with dn(1,3) d0 have "p = d @ [name] \<and> d \<in> set (glob_dirs e target ?f0) \<and>
        d @ [name] \<in> fst ` set ?f0 \<and> \<not> ishidden name"
      by (intro conjI)
    then have "p \<in> set ?files" unfolding in_glob_all by (intro exI)
    with file0 that(3) have "\<exists>p'\<in>set ?files. isfile ?f0 p' \<and> date_search (basename p') \<and>
        [''images'', splitext (basename p)] = [''images'', splitext (basename p')]"
      by blast
    with m [of "[''images'', splitext (basename p)]"] show ?thesis
      by (simp add: isdir_def)
  qed
  then have "fst (make_date_dirs (glob e target (fs w1) []) w1) = None \<and>
      fs (snd (make_date_dirs (glob e target (fs w1) []) w1)) = fs w1"
    by (intro make_date_dirs_again)
  with dir1 mk show ?thesis
    by (simp add: create_image_directories_def Let_def)
qed


lemma plain_photos: "\<not> has_magic ''photos''"
  by code_simp

lemma globs_old_jpg:
  "glob e ''photos'' [([], Dir), ([''old.jpg''], File (Bytes ''JFIF''))] ''.HEIC'' = []"
  "glob e ''photos'' [([], Dir), ([''old.jpg''], File (Bytes ''JFIF''))] ''.heic'' = []"
  "glob e ''photos'' [([], Dir), ([''old.jpg''], File (Bytes ''JFIF''))] ''.jpg'' = [[''old.jpg'']]"
  unfolding glob_plain [OF plain_photos] by code_simp+


section \<open>Properties of the two utilities\<close>

text \<open>
  C1. A run on a directory without HEIC files is to report that none was found and to
  issue no command, so that every file, a \<open>.jpg\<close> file that was already there included,
  is left alone. The code does not do this. The stage that strips the metadata is the
  only one that is not guarded by \<open>heic_paths\<close>: on a directory \<open>photos\<close> that holds
  \<open>old.jpg\<close> and no HEIC file, whatever the environment does, the run reports that no HEIC
  file was found and then starts \<open>magick mogrify -strip\<close> on \<open>old.jpg\<close>.
\<close>

theorem strip_runs_without_heic:
  "\<exists>evs. trace (snd (process_heic_images e ''photos''
       \<lparr>fs = [([], Dir), ([''old.jpg''], File (Bytes ''JFIF''))], trace = []\<rparr>)) =
     [Print NoHeicFound, Print Stripping,
      Exec [Word ''magick'', Word ''mogrify'', Word ''-strip'', PathArg [''old.jpg'']]] @ evs"
proof -
  let ?w = "\<lparr>fs = [([], Dir), ([''old.jpg''], File (Bytes ''JFIF''))], trace = []\<rparr>"
  let ?cmd = "[Word ''magick'', Word ''mogrify'', Word ''-strip'', PathArg [''old.jpg'']]"
  let ?w2 = "say Stripping (say NoHeicFound ?w)"
  have dir: "isdir (fs ?w) []" by (simp add: isdir_def)
  have eq: "process_heic_images e ''photos'' ?w =
      and_then (try_run e ?cmd Stripped ErrorStripping ?w2) (delete_stage e [])"
    using dir
    by (simp add: process_heic_images_def globs_old_jpg and_then_def convert_stage_def
        strip_stage_def fs_say strip_command_def)
  from try_run_trace [of e ?cmd Stripped ErrorStripping ?w2] obtain evs where
    "trace (snd (try_run e ?cmd Stripped ErrorStripping ?w2)) = trace ?w2 @ Exec ?cmd # evs"
    by blast
  then have "trace (snd (process_heic_images e ''photos'' ?w)) = trace ?w2 @ Exec ?cmd # evs"
    unfolding eq
    by (cases "try_run e ?cmd Stripped ErrorStripping ?w2")
      (auto simp: and_then_def delete_stage_def split: option.splits)
  then show ?thesis by (simp add: trace_say)
qed

text \<open>
  C7, as the code has it. When a run of \<open>create_image_directories\<close> has returned without
  raising, a second run on the directory as the first one left it raises nothing and
  leaves the file system as it is: the directories after the second run are those after
  the first, and the directories that exist already cause no failure. The directory is
  unchanged between the runs; for \<open>glob\<close> this means that the path of the target stands
  for the same directories in the second run as in the first, which is so of itself
  when the path holds no metacharacter.
\<close>

theorem create_image_directories_idempotent:
  assumes "create_image_directories e target_dir w = (None, w1)"
    and "glob_dirs e target_dir (fs w1) =
         glob_dirs e target_dir (AList.update [''images''] Dir (fs w))"
  shows "fst (create_image_directories e target_dir w1) = None \<and>
         fs (snd (create_image_directories e target_dir w1)) = fs w1 \<and>
         {p. isdir (fs (snd (create_image_directories e target_dir w1))) p} =
         {p. isdir (fs w1) p}"
  using create_image_directories_again [OF assms] by simp

theorem create_image_directories_idempotent_witness:
  "fst (create_image_directories quiet ''photos''
      \<lparr>fs = [([], Dir), ([''IMG_2024-01-01.jpg''], File (Bytes [])), ([''images''], Dir),
              ([''images'', ''IMG_2024-01-01''], Dir)],
        trace = [Print (CreatedDirectory [''images'', ''IMG_2024-01-01''])]\<rparr>) = None \<and>
   fs (snd (create_image_directories quiet ''photos''
      \<lparr>fs = [([], Dir), ([''IMG_2024-01-01.jpg''], File (Bytes [])), ([''images''], Dir),
              ([''images'', ''IMG_2024-01-01''], Dir)],
        trace = [Print (CreatedDirectory [''images'', ''IMG_2024-01-01''])]\<rparr>)) =
     [([], Dir), ([''IMG_2024-01-01.jpg''], File (Bytes [])), ([''images''], Dir),
      ([''images'', ''IMG_2024-01-01''], Dir)]"
proof -
  let ?w = "\<lparr>fs = [([], Dir), ([''IMG_2024-01-01.jpg''], File (Bytes []))], trace = []\<rparr>"
  let ?w1 = "\<lparr>fs = [([], Dir), ([''IMG_2024-01-01.jpg''], File (Bytes [])), ([''images''], Dir),
                 ([''images'', ''IMG_2024-01-01''], Dir)],
           trace = [Print (CreatedDirectory [''images'', ''IMG_2024-01-01''])]\<rparr>"
  have 1: "create_image_directories quiet ''photos'' ?w = (None, ?w1)"
    by code_simp
  have 2: "glob_dirs quiet ''photos'' (fs ?w1) =
      glob_dirs quiet ''photos'' (AList.update [''images''] Dir (fs ?w))"
    by (simp add: glob_dirs_def plain_photos)
  from create_image_directories_idempotent [OF 1 2] show ?thesis by simp
qed

text \<open>
  C7 as stated fails: where \<open>images\<close> is a regular file of the target directory, the run
  raises \<open>FileExistsError\<close> and changes nothing, and so does the run after it.
\<close>

theorem regular_file_named_images:
  "create_image_directories quiet ''photos''
     \<lparr>fs = [([], Dir), ([''images''], File (Bytes [])), ([''2024-01-01.jpg''], File (Bytes []))],
       trace = []\<rparr> =
     (Some FileExistsError,
      \<lparr>fs = [([], Dir), ([''images''], File (Bytes [])), ([''2024-01-01.jpg''], File (Bytes []))],
        trace = []\<rparr>) \<and>
   fst (create_image_directories quiet ''photos''
     (snd (create_image_directories quiet ''photos''
       \<lparr>fs = [([], Dir), ([''images''], File (Bytes [])),
               ([''2024-01-01.jpg''], File (Bytes []))],
         trace = []\<rparr>))) = Some FileExistsError"
  by code_simp







end
